theory Spec2Isabelle
  imports Main
begin

section \<open>Values read from a package manifest\<close>

text \<open>
  The command \<^verbatim>\<open>yarn version check\<close> (check.tsx) reads the raw JSON of each workspace's
  package.json. A parsed JSON value is one of the following. A number is an integer-valued
  JavaScript number; objects keep their properties as an association list, read with
  \<open>map_of\<close>.
\<close>

datatype json =
    JNull
  | JBool bool
  | JNumber int
  | JString string
  | JArray "json list"
  | JObject "(string \<times> json) list"

text \<open>
  A property that is missing reads as \<^verbatim>\<open>undefined\<close>: a value that may be undefined is a
  \<open>json option\<close>, with \<open>None\<close> for \<^verbatim>\<open>undefined\<close>.
\<close>

datatype js_type = TUndefined | TObject | TBoolean | TNumber | TString

fun typeof :: "json option \<Rightarrow> js_type" where
  "typeof None = TUndefined"
| "typeof (Some JNull) = TObject"
| "typeof (Some (JBool b)) = TBoolean"
| "typeof (Some (JNumber n)) = TNumber"
| "typeof (Some (JString s)) = TString"
| "typeof (Some (JArray xs)) = TObject"
| "typeof (Some (JObject fs)) = TObject"

text \<open>The truthiness test of \<^verbatim>\<open>a && b\<close>.\<close>

fun truthy :: "json option \<Rightarrow> bool" where
  "truthy None = False"
| "truthy (Some JNull) = False"
| "truthy (Some (JBool b)) = b"
| "truthy (Some (JNumber n)) = (n \<noteq> 0)"
| "truthy (Some (JString s)) = (s \<noteq> [])"
| "truthy (Some (JArray xs)) = True"
| "truthy (Some (JObject fs)) = True"

text \<open>
  Reading the property \<open>k\<close> of a truthy value \<^verbatim>\<open>v.k\<close>, for the two names the command
  reads (\<^verbatim>\<open>nonce\<close> and \<^verbatim>\<open>semver\<close>): only an object parsed from JSON can carry them;
  on a string, a number, a boolean or an array the read gives \<^verbatim>\<open>undefined\<close>.
\<close>

fun read_prop :: "json option \<Rightarrow> string \<Rightarrow> json option" where
  "read_prop (Some (JObject fs)) k = map_of fs k"
| "read_prop v k = None"

text \<open>
  Strict equality \<^verbatim>\<open>a === b\<close> of the values of two different properties of one parsed
  document. Primitives compare by value. Objects and arrays compare by reference, and
  the values of two different properties are never the same reference.
\<close>

fun strict_eq :: "json option \<Rightarrow> json option \<Rightarrow> bool" where
  "strict_eq None None = True"
| "strict_eq (Some JNull) (Some JNull) = True"
| "strict_eq (Some (JBool a)) (Some (JBool b)) = (a = b)"
| "strict_eq (Some (JNumber a)) (Some (JNumber b)) = (a = b)"
| "strict_eq (Some (JString a)) (Some (JString b)) = (a = b)"
| "strict_eq a b = False"

text \<open>
  \<^verbatim>\<open>String(n)\<close> of an integer-valued number: its decimal digits, with a leading minus
  sign for a negative one (JavaScript writes it so below \<open>10^21\<close>).
\<close>

definition digit :: "nat \<Rightarrow> char" where
  "digit d = ''0123456789'' ! d"

fun js_String_nat :: "nat \<Rightarrow> string" where
  "js_String_nat n =
     (if n < 10 then [digit n] else js_String_nat (n div 10) @ [digit (n mod 10)])"

declare js_String_nat.simps [simp del]

definition js_String_num :: "int \<Rightarrow> string" where
  "js_String_num n =
     (if n < 0 then CHR ''-'' # js_String_nat (nat (- n)) else js_String_nat (nat n))"

section \<open>Workspaces and the project\<close>

text \<open>
  The fields of \<^verbatim>\<open>Manifest\<close> the command reads: the parsed \<^verbatim>\<open>version\<close> (null when the
  package has none), the \<^verbatim>\<open>private\<close> flag and the raw JSON object.
\<close>

record manifest =
  version :: "string option"
  is_private :: bool
  raw :: "(string \<times> json) list"

record descriptor =
  identHash :: string
  descriptorHash :: string

text \<open>
  A workspace: its directory, the hash of its anchored locator (its identity in the
  lookups), its manifest and the descriptors of its dependencies in the order
  \<^verbatim>\<open>workspace.dependencies.values()\<close> yields them. The program compares workspaces by
  object identity; two workspaces of a project differ in \<open>cwd\<close>, so equality of records
  stands for it.
\<close>

record workspace =
  cwd :: string
  locatorHash :: string
  manifest :: manifest
  dependencies :: "descriptor list"

record package =
  pkg_name :: string

record project =
  workspaces :: "workspace list"
  storedResolutions :: "string \<rightharpoonup> string"
  storedPackages :: "string \<rightharpoonup> package"

datatype Decision = Undecided | Decline | Major | Minor | Patch | Prerelease

record Status =
  decided :: "workspace list"
  undecided :: "workspace list"
  declined :: "workspace list"

datatype error =
    ResolutionNotRegistered
  | PackageNotRegistered
  | VersionNotSet

section \<open>Classification: \<^verbatim>\<open>getNonce\<close>, \<^verbatim>\<open>willBeReleased\<close>, \<^verbatim>\<open>fetchWorkspacesStatus\<close>\<close>

definition getNonce :: "manifest \<Rightarrow> string option" where
  "getNonce m =
     (let nextVersion = map_of (raw m) ''nextVersion''; nonce = read_prop nextVersion ''nonce'' in
      if truthy nextVersion \<and> (typeof nonce = TString \<or> typeof nonce = TNumber)
      then (case nonce of
              Some (JString s) \<Rightarrow> Some s
            | Some (JNumber n) \<Rightarrow> Some (js_String_num n)
            | _ \<Rightarrow> None)
      else None)"

definition willBeReleased :: "manifest \<Rightarrow> bool" where
  "willBeReleased m =
     (let nextVersion = map_of (raw m) ''nextVersion'' in
      truthy nextVersion \<and> typeof (read_prop nextVersion ''semver'') = TString
      \<and> \<not> strict_eq nextVersion (map_of (raw m) ''version''))"

text \<open>
  \<^verbatim>\<open>fetchPreviousNonce\<close> asks git for the manifest at the base revision. The argument
  \<open>previous\<close> is what git answers: the manifest parsed from its output, or \<open>None\<close> when
  the exit code is not 0.
\<close>

definition fetchPreviousNonce :: "(workspace \<Rightarrow> manifest option) \<Rightarrow> workspace \<Rightarrow> string option" where
  "fetchPreviousNonce previous w =
     (case previous w of Some m \<Rightarrow> getNonce m | None \<Rightarrow> None)"

fun fetchWorkspacesStatus_loop ::
  "(workspace \<Rightarrow> manifest option) \<Rightarrow> workspace list \<Rightarrow> Status \<Rightarrow> Status" where
  "fetchWorkspacesStatus_loop previous [] st = st"
| "fetchWorkspacesStatus_loop previous (w # ws) st =
     (if version (manifest w) = None then fetchWorkspacesStatus_loop previous ws st
      else if getNonce (manifest w) = fetchPreviousNonce previous w
        then fetchWorkspacesStatus_loop previous ws (st\<lparr>undecided := undecided st @ [w]\<rparr>)
      else if willBeReleased (manifest w)
        then fetchWorkspacesStatus_loop previous ws (st\<lparr>decided := decided st @ [w]\<rparr>)
      else fetchWorkspacesStatus_loop previous ws (st\<lparr>declined := declined st @ [w]\<rparr>))"

definition fetchWorkspacesStatus ::
  "workspace list \<Rightarrow> (workspace \<Rightarrow> manifest option) \<Rightarrow> Status" where
  "fetchWorkspacesStatus ws previous =
     fetchWorkspacesStatus_loop previous ws \<lparr>decided = [], undecided = [], declined = []\<rparr>"

section \<open>Propagation: \<^verbatim>\<open>fetchUndecidedDependentWorkspaces\<close>\<close>

text \<open>
  \<^verbatim>\<open>new Map(list.map(workspace => [workspace.anchoredLocator.locatorHash, workspace]))\<close>:
  a later workspace of the list replaces an earlier one with the same hash.
\<close>

definition locatorMap :: "workspace list \<Rightarrow> (string \<rightharpoonup> workspace)" where
  "locatorMap ws = fold (\<lambda>w m. m(locatorHash w \<mapsto> w)) ws Map.empty"

text \<open>
  The inner loop over the dependencies of one workspace. A dependency whose resolution or
  whose package is not registered raises the assertion error of the source.
\<close>

fun dependencies_loop ::
  "project \<Rightarrow> (string \<rightharpoonup> workspace) \<Rightarrow> workspace \<Rightarrow> descriptor list
   \<Rightarrow> error + (workspace \<times> workspace) list" where
  "dependencies_loop p bumpedWorkspaces w [] = Inr []"
| "dependencies_loop p bumpedWorkspaces w (d # ds) =
     (case storedResolutions p (descriptorHash d) of
        None \<Rightarrow> Inl ResolutionNotRegistered
      | Some resolution \<Rightarrow>
          (case storedPackages p resolution of
             None \<Rightarrow> Inl PackageNotRegistered
           | Some pkg \<Rightarrow>
               (case bumpedWorkspaces resolution of
                  None \<Rightarrow> dependencies_loop p bumpedWorkspaces w ds
                | Some dep \<Rightarrow>
                    (case dependencies_loop p bumpedWorkspaces w ds of
                       Inl e \<Rightarrow> Inl e
                     | Inr rest \<Rightarrow> Inr ((w, dep) # rest)))))"

text \<open>The outer loop over \<^verbatim>\<open>project.workspaces\<close>, with the three \<^verbatim>\<open>continue\<close> tests.\<close>

fun workspaces_loop ::
  "project \<Rightarrow> (string \<rightharpoonup> workspace) \<Rightarrow> (string \<rightharpoonup> workspace) \<Rightarrow> workspace set
   \<Rightarrow> workspace list \<Rightarrow> error + (workspace \<times> workspace) list" where
  "workspaces_loop p bumpedWorkspaces declinedWorkspaces include [] = Inr []"
| "workspaces_loop p bumpedWorkspaces declinedWorkspaces include (w # ws) =
     (if w \<notin> include \<and> (declinedWorkspaces (locatorHash w) \<noteq> None
                          \<or> bumpedWorkspaces (locatorHash w) \<noteq> None)
        then workspaces_loop p bumpedWorkspaces declinedWorkspaces include ws
      else if is_private (manifest w)
        then workspaces_loop p bumpedWorkspaces declinedWorkspaces include ws
      else if version (manifest w) = None
        then workspaces_loop p bumpedWorkspaces declinedWorkspaces include ws
      else (case dependencies_loop p bumpedWorkspaces w (dependencies w) of
              Inl e \<Rightarrow> Inl e
            | Inr found \<Rightarrow>
                (case workspaces_loop p bumpedWorkspaces declinedWorkspaces include ws of
                   Inl e \<Rightarrow> Inl e
                 | Inr rest \<Rightarrow> Inr (found @ rest))))"

text \<open>
  The arguments are the \<^verbatim>\<open>decided\<close> and \<^verbatim>\<open>declined\<close> arrays, the project and the
  \<^verbatim>\<open>include\<close> set (empty by default). The result is the array \<^verbatim>\<open>undecided\<close> of pairs
  (dependent, bumped dependency), in the order they are pushed.
\<close>

definition fetchUndecidedDependentWorkspaces ::
  "workspace list \<Rightarrow> workspace list \<Rightarrow> project \<Rightarrow> workspace set
   \<Rightarrow> error + (workspace \<times> workspace) list" where
  "fetchUndecidedDependentWorkspaces decided_ws declined_ws p include =
     workspaces_loop p (locatorMap decided_ws) (locatorMap declined_ws) include (workspaces p)"

section \<open>Arrays, insertion-ordered maps and list input\<close>

text \<open>
  \<^verbatim>\<open>[...new Set(xs)]\<close>, and the loop that pushes a value unless the array
  \<^verbatim>\<open>includes\<close> it: the first occurrence of each value, in order.
\<close>

fun uniq_loop :: "'a list \<Rightarrow> 'a list \<Rightarrow> 'a list" where
  "uniq_loop [] acc = acc"
| "uniq_loop (x # xs) acc = uniq_loop xs (if x \<in> set acc then acc else acc @ [x])"

definition uniq :: "'a list \<Rightarrow> 'a list" where
  "uniq xs = uniq_loop xs []"

text \<open>
  A JavaScript \<^verbatim>\<open>Map\<close> iterates in insertion order: it is the list of its entries.
  \<^verbatim>\<open>set\<close> on a key of the map replaces the value where the entry stands, on a new key
  it appends the entry; \<^verbatim>\<open>delete\<close> removes the entry.
\<close>

fun jsmap_set :: "('k \<times> 'v) list \<Rightarrow> 'k \<Rightarrow> 'v \<Rightarrow> ('k \<times> 'v) list" where
  "jsmap_set [] k v = [(k, v)]"
| "jsmap_set (e # m) k v = (if fst e = k then (k, v) # m else e # jsmap_set m k v)"

definition jsmap_delete :: "('k \<times> 'v) list \<Rightarrow> 'k \<Rightarrow> ('k \<times> 'v) list" where
  "jsmap_delete m k = filter (\<lambda>e. fst e \<noteq> k) m"

definition jsmap_get :: "('k \<times> 'v) list \<Rightarrow> 'k \<Rightarrow> 'v option" where
  "jsmap_get m k = map_of m k"

definition jsmap_new :: "('k \<times> 'v) list \<Rightarrow> ('k \<times> 'v) list" where
  "jsmap_new entries = fold (\<lambda>e m. jsmap_set m (fst e) (snd e)) entries []"

text \<open>\<^verbatim>\<open>values.indexOf(value)\<close>: the first index, or -1.\<close>

fun indexOf :: "'a list \<Rightarrow> 'a \<Rightarrow> int" where
  "indexOf [] x = - 1"
| "indexOf (y # ys) x =
     (if y = x then 0 else (let i = indexOf ys x in if i < 0 then - 1 else i + 1))"

text \<open>
  \<^verbatim>\<open>a % b\<close> on integers: the remainder has the sign of \<open>a\<close>, and \<open>None\<close> stands for the
  \<^verbatim>\<open>NaN\<close> of a zero divisor. \<^verbatim>\<open>xs[i]\<close> is \<^verbatim>\<open>undefined\<close> outside the array.
\<close>

definition js_rem :: "int \<Rightarrow> int \<Rightarrow> int option" where
  "js_rem a b = (if b = 0 then None else Some (sgn a * (\<bar>a\<bar> mod \<bar>b\<bar>)))"

definition js_at :: "'a list \<Rightarrow> int option \<Rightarrow> 'a option" where
  "js_at xs i =
     (case i of
        None \<Rightarrow> None
      | Some j \<Rightarrow> if 0 \<le> j \<and> j < int (length xs) then Some (xs ! nat j) else None)"

datatype Key = KUp | KDown | KLeft | KRight | KReturn | KOther

text \<open>
  The keypress callback of \<^verbatim>\<open>useListInput\<close>. The result is \<open>None\<close> when \<^verbatim>\<open>set\<close> is not
  called, and \<open>Some r\<close> when it is called with \<open>r\<close> (\<open>None\<close> for \<^verbatim>\<open>undefined\<close>).
\<close>

definition useListInput ::
  "'a \<Rightarrow> 'a list \<Rightarrow> bool \<Rightarrow> Key \<Rightarrow> Key \<Rightarrow> Key \<Rightarrow> 'a option option" where
  "useListInput val vals active minus_key plus_key key =
     (if \<not> active then None
      else if key = minus_key
        then Some (js_at vals (js_rem (int (length vals) + indexOf vals val - 1) (int (length vals))))
      else if key = plus_key
        then Some (js_at vals (js_rem (indexOf vals val + 1) (int (length vals))))
      else None)"

section \<open>The interactive session\<close>

text \<open>
  \<^verbatim>\<open>semver.prerelease\<close> belongs to the semver library; the definitions take it as the
  argument \<open>prerelease\<close>, which gives the prerelease components of a version or \<open>None\<close>
  (null) when the version has none.
\<close>

definition strategies :: "(string \<Rightarrow> string list option) \<Rightarrow> string \<Rightarrow> Decision list" where
  "strategies prerelease currentVersion =
     (if prerelease currentVersion = None
      then [Undecided, Decline, Patch, Minor, Major, Prerelease]
      else [Undecided, Decline, Prerelease, Major])"

text \<open>
  The strategy list the component \<^verbatim>\<open>Undecided\<close> computes for its workspace; it raises
  when the workspace has no version.
\<close>

definition Undecided_strategies ::
  "(string \<Rightarrow> string list option) \<Rightarrow> workspace \<Rightarrow> error + Decision list" where
  "Undecided_strategies prerelease w =
     (case version (manifest w) of
        None \<Rightarrow> Inl VersionNotSet
      | Some currentVersion \<Rightarrow> Inr (strategies prerelease currentVersion))"

text \<open>\<^verbatim>\<open>useDecisions\<close>: the map of decisions and its \<^verbatim>\<open>setDecision\<close>.\<close>

type_synonym Decisions = "(workspace \<times> Decision) list"

definition setDecision :: "Decisions \<Rightarrow> workspace \<Rightarrow> Decision \<Rightarrow> Decisions" where
  "setDecision decisions w decision =
     (if decision \<noteq> Undecided then jsmap_set decisions w decision
      else jsmap_delete decisions w)"

text \<open>\<^verbatim>\<open>decisions.get(workspace) || `undecided`\<close>, the decision a row shows.\<close>

definition decision_of :: "Decisions \<Rightarrow> workspace \<Rightarrow> Decision" where
  "decision_of decisions w =
     (case jsmap_get decisions w of Some d \<Rightarrow> d | None \<Rightarrow> Undecided)"

record Listing =
  undecidedWorkspaces :: "workspace list"
  undecidedDependents :: "workspace list"
  fullListing :: "(string \<times> workspace) list"

definition applyDecisions :: "Status \<Rightarrow> Decisions \<Rightarrow> project \<Rightarrow> error + Listing" where
  "applyDecisions status decisions p =
     (let decidedWithDecisions =
            decided status @ map fst (filter (\<lambda>e. snd e \<noteq> Undecided \<and> snd e \<noteq> Decline) decisions);
          declinedWithDecisions =
            declined status @ map fst (filter (\<lambda>e. snd e \<noteq> Undecided \<and> snd e = Decline) decisions)
      in case fetchUndecidedDependentWorkspaces decidedWithDecisions declinedWithDecisions p
                (set (map fst decisions)) of
           Inl e \<Rightarrow> Inl e
         | Inr undecidedDependents_pairs \<Rightarrow>
             (let noDuplicates = uniq (map fst undecidedDependents_pairs) in
              Inr \<lparr>undecidedWorkspaces = undecided status,
                   undecidedDependents = noDuplicates,
                   fullListing = jsmap_new
                     (map (\<lambda>w. (''undecidedWorkspace:'' @ locatorHash w, w)) (undecided status)
                      @ map (\<lambda>w. (''undecidedDependent:'' @ locatorHash w, w)) noDuplicates)\<rparr>))"

text \<open>
  The state of the component \<^verbatim>\<open>App\<close>: the decisions and the key of the active row
  (\<open>None\<close> for \<^verbatim>\<open>undefined\<close>).
\<close>

record AppState =
  decisions :: Decisions
  activeKey :: "string option"

text \<open>
  One render of \<^verbatim>\<open>App\<close>: the listing of \<^verbatim>\<open>applyDecisions\<close>, then one \<^verbatim>\<open>Undecided\<close>
  component for each row, which raises on a row without a version.
\<close>

definition App_render ::
  "Status \<Rightarrow> project \<Rightarrow> AppState \<Rightarrow> error + Listing" where
  "App_render status p st =
     (case applyDecisions status (decisions st) p of
        Inl e \<Rightarrow> Inl e
      | Inr listing \<Rightarrow>
          if list_all (\<lambda>w. version (manifest w) \<noteq> None)
               (undecidedWorkspaces listing @ undecidedDependents listing)
          then Inr listing else Inl VersionNotSet)"

text \<open>
  A keypress other than return, on the listing of the last render. Up and down move the
  active key over the keys of the full listing. Left and right reach the rows whose
  workspace is the active one; each of them calls \<^verbatim>\<open>setDecision\<close> of that render with the
  same workspace and the same next strategy, so the state after them is the one \<^verbatim>\<open>set\<close>
  call. The strategy list is never empty, so the next strategy is never
  \<^verbatim>\<open>undefined\<close> (lemma \<open>useListInput_strategies_defined\<close>).
\<close>

definition App_keypress ::
  "(string \<Rightarrow> string list option) \<Rightarrow> Listing \<Rightarrow> AppState \<Rightarrow> Key \<Rightarrow> AppState" where
  "App_keypress prerelease listing st key =
     (let keys = map fst (fullListing listing);
          activeWorkspace =
            (case activeKey st of None \<Rightarrow> None | Some k \<Rightarrow> jsmap_get (fullListing listing) k);
          st1 = (case useListInput (activeKey st) (map Some keys) True KUp KDown key of
                   None \<Rightarrow> st
                 | Some r \<Rightarrow> st\<lparr>activeKey := (case r of None \<Rightarrow> None | Some k \<Rightarrow> k)\<rparr>)
      in case activeWorkspace of
           None \<Rightarrow> st1
         | Some w \<Rightarrow>
             (case Undecided_strategies prerelease w of
                Inl e \<Rightarrow> st1
              | Inr strats \<Rightarrow>
                  (case useListInput (decision_of (decisions st) w) strats True KLeft KRight key of
                     Some (Some d) \<Rightarrow> st1\<lparr>decisions := setDecision (decisions st) w d\<rparr>
                   | _ \<Rightarrow> st1)))"

text \<open>
  \<^verbatim>\<open>renderForm\<close>: the session over the keypresses the terminal delivers. Return
  submits the decisions of the last render; when the keypresses end without it the
  session was closed another way and the result is \<open>None\<close> (\<^verbatim>\<open>undefined\<close>). A render
  that raises ends the session with its error.
\<close>

fun session_loop ::
  "Status \<Rightarrow> project \<Rightarrow> (string \<Rightarrow> string list option) \<Rightarrow> AppState \<Rightarrow> Key list
   \<Rightarrow> error + Decisions option" where
  "session_loop status p prerelease st [] =
     (case App_render status p st of Inl e \<Rightarrow> Inl e | Inr listing \<Rightarrow> Inr None)"
| "session_loop status p prerelease st (key # keys) =
     (case App_render status p st of
        Inl e \<Rightarrow> Inl e
      | Inr listing \<Rightarrow>
          if key = KReturn then Inr (Some (decisions st))
          else session_loop status p prerelease (App_keypress prerelease listing st key) keys)"

definition renderForm ::
  "Status \<Rightarrow> project \<Rightarrow> (string \<Rightarrow> string list option) \<Rightarrow> Key list
   \<Rightarrow> error + Decisions option" where
  "renderForm status p prerelease keys =
     (case App_render status p \<lparr>decisions = [], activeKey = None\<rparr> of
        Inl e \<Rightarrow> Inl e
      | Inr listing \<Rightarrow>
          session_loop status p prerelease
            \<lparr>decisions = [], activeKey = js_at (map fst (fullListing listing)) (Some 0)\<rparr> keys)"

section \<open>The two commands\<close>

text \<open>
  What a command does to the outside: the lines it gives to its report, and the runs of
  \<^verbatim>\<open>yarn version <decision> --deferred\<close> in a workspace directory, which write the
  decision into that workspace's manifest.
\<close>

datatype message =
    StartedAfter
  | ChangedFiles
  | ChangedFile string
  | NoBumpStrategy workspace
  | DependsOnBumped workspace workspace
  | DetectedModifications
  | HowToCorrect

datatype effect =
    ReportInfo message
  | ReportError message
  | ReportSeparator
  | CliRun string Decision

text \<open>
  The test of \<^verbatim>\<open>executeInteractive\<close> before it opens the session: there is something
  to decide when a changed workspace is undecided, or else when the propagation from the
  status returns a pair.
\<close>

definition session_needed :: "Status \<Rightarrow> project \<Rightarrow> error + bool" where
  "session_needed status p =
     (if undecided status = []
      then (case fetchUndecidedDependentWorkspaces (decided status) (declined status) p {} of
              Inl e \<Rightarrow> Inl e
            | Inr pairs \<Rightarrow> Inr (pairs \<noteq> []))
      else Inr True)"

text \<open>
  The last loop of \<^verbatim>\<open>executeInteractive\<close>, over the entries of the submitted map in its
  iteration order: one run of \<^verbatim>\<open>version <decision> --deferred\<close> in the workspace's
  directory for each entry that is not undecided.
\<close>

definition cli_runs :: "Decisions \<Rightarrow> effect list" where
  "cli_runs submitted =
     map (\<lambda>e. CliRun (cwd (fst e)) (snd e)) (filter (\<lambda>e. snd e \<noteq> Undecided) submitted)"

text \<open>
  \<^verbatim>\<open>executeInteractive\<close>, from the changed files on. \<open>getWorkspaceByFilePath\<close> is the
  project's lookup of the workspace that owns a file. The result is what the command
  returns (\<open>None\<close> for \<^verbatim>\<open>undefined\<close>, \<open>Some 1\<close> for the exit code 1) or the error it
  raises, and the runs it made.
\<close>

definition executeInteractive ::
  "string list \<Rightarrow> (string \<Rightarrow> workspace) \<Rightarrow> (workspace \<Rightarrow> manifest option) \<Rightarrow> project
   \<Rightarrow> (string \<Rightarrow> string list option) \<Rightarrow> Key list \<Rightarrow> (error + int option) \<times> effect list" where
  "executeInteractive files getWorkspaceByFilePath previous p prerelease keys =
     (let ws = uniq (map getWorkspaceByFilePath files) in
      if ws = [] then (Inr None, [])
      else
        (let status = fetchWorkspacesStatus ws previous in
         case session_needed status p of
           Inl e \<Rightarrow> (Inl e, [])
         | Inr False \<Rightarrow> (Inr None, [])
         | Inr True \<Rightarrow>
             (case renderForm status p prerelease keys of
                Inl e \<Rightarrow> (Inl e, [])
              | Inr None \<Rightarrow> (Inr (Some 1), [])
              | Inr (Some submitted) \<Rightarrow> (Inr None, cli_runs submitted))))"

text \<open>
  Modelled from the spec: the report sink \<^verbatim>\<open>StreamReport\<close> of the core package is not
  under src/. Following the spec's report mode (sections 4.3 and 6), the exit code it
  gives is non-zero (1) when a diagnostic line was reported as an error, and 0 otherwise.
\<close>

fun is_ReportError :: "effect \<Rightarrow> bool" where
  "is_ReportError (ReportError m) = True"
| "is_ReportError e = False"

definition exitCode :: "effect list \<Rightarrow> int" where
  "exitCode report = (if list_ex is_ReportError report then 1 else 0)"

fun is_CliRun :: "effect \<Rightarrow> bool" where
  "is_CliRun (CliRun dir decision) = True"
| "is_CliRun e = False"

text \<open>
  The loop of \<^verbatim>\<open>executeStandard\<close> over the propagated pairs: a separator before the
  first error when something was printed before, then one error for each pair.
\<close>

fun dependents_report ::
  "bool \<Rightarrow> (workspace \<times> workspace) list \<Rightarrow> bool \<Rightarrow> effect list \<times> bool" where
  "dependents_report printed_before [] hasDepsErrors = ([], hasDepsErrors)"
| "dependents_report printed_before (pair # pairs) hasDepsErrors =
     (let here = (if \<not> hasDepsErrors \<and> printed_before then [ReportSeparator] else [])
                 @ [ReportError (DependsOnBumped (fst pair) (snd pair))];
          rest = dependents_report printed_before pairs True
      in (here @ fst rest, snd rest))"

text \<open>
  \<^verbatim>\<open>executeStandard\<close>, from the changed files on: the exit code of the report or the
  error raised, and the lines reported up to there.
\<close>

definition executeStandard ::
  "string list \<Rightarrow> (string \<Rightarrow> workspace) \<Rightarrow> (workspace \<Rightarrow> manifest option) \<Rightarrow> project
   \<Rightarrow> (error + int) \<times> effect list" where
  "executeStandard files getWorkspaceByFilePath previous p =
     (let ws = uniq (map getWorkspaceByFilePath files);
          r1 = ReportInfo StartedAfter
               # (if files = [] then []
                  else ReportInfo ChangedFiles # map (\<lambda>file. ReportInfo (ChangedFile file)) files);
          status = fetchWorkspacesStatus ws previous;
          hasDiffErrors = (undecided status \<noteq> []);
          r2 = r1 @ (if undecided status = [] then []
                     else (if files = [] then [] else [ReportSeparator])
                          @ map (\<lambda>w. ReportError (NoBumpStrategy w)) (undecided status))
      in case fetchUndecidedDependentWorkspaces (decided status) (declined status) p {} of
           Inl e \<Rightarrow> (Inl e, r2)
         | Inr undecidedDependents_pairs \<Rightarrow>
             (let deps = dependents_report (files \<noteq> [] \<or> hasDiffErrors)
                           undecidedDependents_pairs False;
                  r3 = r2 @ fst deps;
                  r4 = r3 @ (if hasDiffErrors \<or> snd deps
                             then [ReportSeparator, ReportInfo DetectedModifications,
                                   ReportInfo HowToCorrect]
                             else [])
              in (Inr (exitCode r4), r4)))"

section \<open>Predicates used in the proofs\<close>

text \<open>
  \<open>resolves p bumped w dep\<close>: a dependency of \<open>w\<close> resolves to a locator hash under which
  the lookup \<open>bumped\<close> holds \<open>dep\<close>. \<open>checked bumped declinedW inc w\<close>: the outer loop does not
  skip \<open>w\<close>.
\<close>

definition resolves :: "project \<Rightarrow> (string \<rightharpoonup> workspace) \<Rightarrow> workspace \<Rightarrow> workspace \<Rightarrow> bool" where
  "resolves p bumped w dep =
     (\<exists>d \<in> set (dependencies w). \<exists>r. storedResolutions p (descriptorHash d) = Some r \<and> bumped r = Some dep)"

definition checked :: "(string \<rightharpoonup> workspace) \<Rightarrow> (string \<rightharpoonup> workspace) \<Rightarrow> workspace set \<Rightarrow> workspace \<Rightarrow> bool" where
  "checked bumped declinedW inc w \<longleftrightarrow>
     (w \<in> inc \<or> (declinedW (locatorHash w) = None \<and> bumped (locatorHash w) = None))
     \<and> \<not> is_private (manifest w) \<and> version (manifest w) \<noteq> None"

text \<open>
  \<open>recorded m\<close>: the decision map \<open>m\<close> holds each workspace once, and never with the value
  \<^verbatim>\<open>undecided\<close>.
\<close>

definition recorded :: "Decisions \<Rightarrow> bool" where
  "recorded m \<longleftrightarrow> distinct (map fst m) \<and> list_all (\<lambda>e. snd e \<noteq> Undecided) m"

section \<open>An example project\<close>

text \<open>
  Three public workspaces: \<open>ws_B\<close> depends on \<open>ws_A\<close>, and \<open>ws_C\<close> depends on \<open>ws_B\<close>.
\<close>

definition example_manifest :: "string \<Rightarrow> manifest" where
  "example_manifest v = \<lparr>version = Some v, is_private = False, raw = [(''version'', JString v)]\<rparr>"

definition ws_A :: workspace where
  "ws_A = \<lparr>cwd = ''/repo/a'', locatorHash = ''hA'', manifest = example_manifest ''1.0.0'',
           dependencies = []\<rparr>"

definition ws_B :: workspace where
  "ws_B = \<lparr>cwd = ''/repo/b'', locatorHash = ''hB'', manifest = example_manifest ''2.0.0'',
           dependencies = [\<lparr>identHash = ''iA'', descriptorHash = ''dA''\<rparr>]\<rparr>"

definition ws_C :: workspace where
  "ws_C = \<lparr>cwd = ''/repo/c'', locatorHash = ''hC'', manifest = example_manifest ''3.0.0'',
           dependencies = [\<lparr>identHash = ''iB'', descriptorHash = ''dB''\<rparr>]\<rparr>"

definition example_project :: project where
  "example_project =
     \<lparr>workspaces = [ws_A, ws_B, ws_C],
      storedResolutions = [''dA'' \<mapsto> ''hA'', ''dB'' \<mapsto> ''hB''],
      storedPackages = [''hA'' \<mapsto> \<lparr>pkg_name = ''a''\<rparr>, ''hB'' \<mapsto> \<lparr>pkg_name = ''b''\<rparr>,
                        ''hC'' \<mapsto> \<lparr>pkg_name = ''c''\<rparr>]\<rparr>"

text \<open>
  A workspace at version 1.0.0 whose manifest records a declined bump: a nonce, and a
  target version equal to the version field. At the base revision its manifest has no
  \<^verbatim>\<open>nextVersion\<close>.
\<close>

definition ws_declined :: workspace where
  "ws_declined =
     \<lparr>cwd = ''/repo/a'', locatorHash = ''hA'',
      manifest = \<lparr>version = Some ''1.0.0'', is_private = False,
                  raw = [(''version'', JString ''1.0.0''),
                         (''nextVersion'', JObject [(''semver'', JString ''1.0.0''),
                                                    (''nonce'', JString ''123'')])]\<rparr>,
      dependencies = []\<rparr>"

definition previous_plain :: "workspace \<Rightarrow> manifest option" where
  "previous_plain w = Some (example_manifest ''1.0.0'')"





text \<open>
  Two changed files, one in \<open>ws_A\<close> and one in \<open>ws_B\<close>, and a base revision at which
  each manifest is what it is in the working tree (no decision was recorded).
\<close>

definition example_files :: "string list" where
  "example_files = [''/repo/a/index.ts'', ''/repo/b/index.ts'']"

definition example_owner :: "string \<Rightarrow> workspace" where
  "example_owner file = (if file = ''/repo/a/index.ts'' then ws_A else ws_B)"

definition previous_same :: "workspace \<Rightarrow> manifest option" where
  "previous_same w = Some (manifest w)"

text \<open>
  A stand-in for \<^verbatim>\<open>semver.prerelease\<close> on the versions of the examples: 1.0.0-alpha.1
  is a prerelease, the others are not.
\<close>

definition example_prerelease :: "string \<Rightarrow> string list option" where
  "example_prerelease v = (if v = ''1.0.0-alpha.1'' then Some [''alpha'', ''1''] else None)"

text \<open>
  A state of the session on the status whose only undecided workspace is \<open>ws_A\<close>: the
  row of \<open>ws_A\<close> is active and shows prerelease. \<open>example_listing\<close> is the listing
  \<^verbatim>\<open>App\<close> renders in that state (lemma \<open>example_listing_is_render\<close>).
\<close>

definition example_listing :: Listing where
  "example_listing =
     \<lparr>undecidedWorkspaces = [ws_A], undecidedDependents = [ws_B],
      fullListing = [(''undecidedWorkspace:hA'', ws_A), (''undecidedDependent:hB'', ws_B)]\<rparr>"

definition example_state :: AppState where
  "example_state = \<lparr>decisions = [(ws_A, Prerelease)], activeKey = Some ''undecidedWorkspace:hA''\<rparr>"

section \<open>Classification\<close>







lemma willBeReleased_iff:
  "willBeReleased m \<longleftrightarrow>
     (\<exists>fs s. map_of (raw m) ''nextVersion'' = Some (JObject fs) \<and> map_of fs ''semver'' = Some (JString s))"
  apply (cases "map_of (raw m) ''nextVersion''")
   apply (simp add: willBeReleased_def Let_def)
  subgoal for v
    apply (cases v)
         apply (auto simp: willBeReleased_def Let_def)
    subgoal for fs by (cases "map_of fs ''semver''"; cases "the (map_of fs ''semver'')") auto
    done
  done

text \<open>
  Claim C1 says that a workspace whose nonce changed is classified decided when the target
  version of its decision record is present and differs from the version field, and
  declined otherwise, so also when the target version equals the version field.
  \<^verbatim>\<open>willBeReleased\<close> compares the whole \<^verbatim>\<open>nextVersion\<close> object with the version, not
  its \<^verbatim>\<open>semver\<close>; an object is never strictly equal to the version, so the comparison
  never fails (lemma \<open>willBeReleased_iff\<close>). The workspace \<open>ws_declined\<close> has a changed
  nonce and the target version 1.0.0 at version 1.0.0: the program classifies it decided,
  where the claim says declined.
\<close>

theorem declined_bump_classified_decided:
  "getNonce (manifest ws_declined) = Some ''123''
   \<and> fetchPreviousNonce previous_plain ws_declined = None
   \<and> read_prop (map_of (raw (manifest ws_declined)) ''nextVersion'') ''semver'' = Some (JString ''1.0.0'')
   \<and> map_of (raw (manifest ws_declined)) ''version'' = Some (JString ''1.0.0'')
   \<and> fetchWorkspacesStatus [ws_declined] previous_plain
       = \<lparr>decided = [ws_declined], undecided = [], declined = []\<rparr>"
  by (simp add: fetchWorkspacesStatus_def ws_declined_def previous_plain_def example_manifest_def
      getNonce_def fetchPreviousNonce_def willBeReleased_def)




section \<open>Propagation\<close>

lemma fold_locator_Some:
  "fold (\<lambda>w m. m(locatorHash w \<mapsto> w)) ws m0 h = Some w \<Longrightarrow>
   (w \<in> set ws \<and> locatorHash w = h) \<or> m0 h = Some w"
  by (induction ws arbitrary: m0) (fastforce split: if_splits)+

lemma locatorMap_Some:
  "locatorMap ws h = Some w \<Longrightarrow> w \<in> set ws \<and> locatorHash w = h"
  using fold_locator_Some [of ws Map.empty h w] by (simp add: locatorMap_def)

lemma fold_locator_dom:
  "dom (fold (\<lambda>w m. m(locatorHash w \<mapsto> w)) ws m0) = dom m0 \<union> locatorHash ` set ws"
  by (induction ws arbitrary: m0) auto

lemma locatorMap_dom: "dom (locatorMap ws) = locatorHash ` set ws"
  by (simp add: locatorMap_def fold_locator_dom)

lemma locatorMap_None_iff: "locatorMap ws h = None \<longleftrightarrow> h \<notin> locatorHash ` set ws"
  using locatorMap_dom [of ws] by (metis domIff)

lemma locatorMap_inj:
  assumes "inj_on locatorHash (set ws)" "w \<in> set ws"
  shows "locatorMap ws (locatorHash w) = Some w"
proof (cases "locatorMap ws (locatorHash w)")
  case None
  then show ?thesis using assms(2) by (simp add: locatorMap_None_iff)
next
  case (Some w')
  then have "w' \<in> set ws" "locatorHash w' = locatorHash w"
    using locatorMap_Some by blast+
  then have "w' = w" using assms by (auto dest: inj_onD)
  then show ?thesis using Some by simp
qed

lemma dependencies_loop_set:
  "dependencies_loop p bumped w ds = Inr ps \<Longrightarrow>
   set ps = {(w', dep). w' = w \<and> (\<exists>d \<in> set ds. \<exists>r. storedResolutions p (descriptorHash d) = Some r \<and> bumped r = Some dep)}"
proof (induction ds arbitrary: ps)
  case Nil
  then show ?case by auto
next
  case (Cons d ds)
  then show ?case
    by (auto split: option.splits sum.splits)
qed

lemma dependencies_loop_Inr_iff:
  "(\<exists>ps. dependencies_loop p bumped w ds = Inr ps) \<longleftrightarrow>
   (\<forall>d \<in> set ds. \<exists>r. storedResolutions p (descriptorHash d) = Some r \<and> storedPackages p r \<noteq> None)"
  by (induction ds) (auto split: option.splits sum.splits)

lemma workspaces_loop_set:
  "workspaces_loop p bumped declinedW inc ws = Inr ps \<Longrightarrow>
   set ps = {(w, dep). w \<in> set ws \<and> checked bumped declinedW inc w \<and> resolves p bumped w dep}"
proof (induction ws arbitrary: ps)
  case Nil
  then show ?case by auto
next
  case (Cons w ws)
  show ?case
  proof (cases "checked bumped declinedW inc w")
    case False
    then have "workspaces_loop p bumped declinedW inc ws = Inr ps"
      using Cons.prems by (auto simp: checked_def split: if_splits)
    from Cons.IH [OF this] False show ?thesis by auto
  next
    case True
    then obtain found rest where
      f: "dependencies_loop p bumped w (dependencies w) = Inr found"
      and r: "workspaces_loop p bumped declinedW inc ws = Inr rest"
      and ps: "ps = found @ rest"
      using Cons.prems by (auto simp: checked_def split: if_splits sum.splits)
    have "set found = {(w', dep). w' = w \<and> resolves p bumped w dep}"
      using dependencies_loop_set [OF f] by (simp add: resolves_def)
    with Cons.IH [OF r] ps True show ?thesis by auto
  qed
qed

lemma workspaces_loop_Inr_iff:
  "(\<exists>ps. workspaces_loop p bumped declinedW inc ws = Inr ps) \<longleftrightarrow>
   (\<forall>w \<in> set ws. checked bumped declinedW inc w \<longrightarrow>
      (\<forall>d \<in> set (dependencies w). \<exists>r. storedResolutions p (descriptorHash d) = Some r \<and> storedPackages p r \<noteq> None))"
proof (induction ws)
  case Nil
  then show ?case by simp
next
  case (Cons w ws)
  show ?case
  proof (cases "checked bumped declinedW inc w")
    case False
    then have "workspaces_loop p bumped declinedW inc (w # ws) = workspaces_loop p bumped declinedW inc ws"
      by (auto simp: checked_def)
    with Cons False show ?thesis by simp
  next
    case True
    then have eq: "workspaces_loop p bumped declinedW inc (w # ws) =
        (case dependencies_loop p bumped w (dependencies w) of
              Inl e \<Rightarrow> Inl e
            | Inr found \<Rightarrow>
                (case workspaces_loop p bumped declinedW inc ws of
                   Inl e \<Rightarrow> Inl e
                 | Inr rest \<Rightarrow> Inr (found @ rest)))"
      by (auto simp: checked_def)
    let ?ok = "\<lambda>w. \<forall>d \<in> set (dependencies w). \<exists>r. storedResolutions p (descriptorHash d) = Some r \<and> storedPackages p r \<noteq> None"
    have d: "(\<exists>found. dependencies_loop p bumped w (dependencies w) = Inr found) \<longleftrightarrow> ?ok w"
      by (rule dependencies_loop_Inr_iff)
    have "(\<exists>ps. workspaces_loop p bumped declinedW inc (w # ws) = Inr ps) \<longleftrightarrow>
          (\<exists>found. dependencies_loop p bumped w (dependencies w) = Inr found)
          \<and> (\<exists>rest. workspaces_loop p bumped declinedW inc ws = Inr rest)"
      unfolding eq by (cases "dependencies_loop p bumped w (dependencies w)";
                       cases "workspaces_loop p bumped declinedW inc ws") simp_all
    also have "\<dots> \<longleftrightarrow> ?ok w \<and> (\<forall>w' \<in> set ws. checked bumped declinedW inc w' \<longrightarrow> ?ok w')"
      unfolding d Cons.IH ..
    also have "\<dots> \<longleftrightarrow> (\<forall>w' \<in> set (w # ws). checked bumped declinedW inc w' \<longrightarrow> ?ok w')"
      using True by simp
    finally show ?thesis .
  qed
qed

lemmas example_defs = example_manifest_def ws_A_def ws_B_def ws_C_def example_project_def

lemma propagate_example_A:
  "fetchUndecidedDependentWorkspaces [ws_A] [] example_project {} = Inr [(ws_B, ws_A)]"
  by (simp add: fetchUndecidedDependentWorkspaces_def locatorMap_def example_defs)

lemma propagate_example_A_B:
  "fetchUndecidedDependentWorkspaces [ws_A, ws_B] [] example_project {} = Inr [(ws_C, ws_B)]"
  by (simp add: fetchUndecidedDependentWorkspaces_def locatorMap_def example_defs)

lemma fetch_set:
  "fetchUndecidedDependentWorkspaces decided_ws declined_ws p inc = Inr pairs \<Longrightarrow>
   set pairs = {(w, dep). w \<in> set (workspaces p)
        \<and> checked (locatorMap decided_ws) (locatorMap declined_ws) inc w
        \<and> resolves p (locatorMap decided_ws) w dep}"
  unfolding fetchUndecidedDependentWorkspaces_def by (rule workspaces_loop_set)

text \<open>
  Claim C5: whatever the decided and declined arrays, the project and the include set, a
  pair that the propagation returns never has a private dependent, nor a dependent
  without a version.
\<close>

theorem propagate_dependent_public_versioned:
  "fetchUndecidedDependentWorkspaces decided_ws declined_ws p inc = Inr pairs \<Longrightarrow>
   (w, dep) \<in> set pairs \<Longrightarrow>
   \<not> is_private (manifest w) \<and> version (manifest w) \<noteq> None"
  by (auto simp: fetch_set checked_def)

theorem propagate_dependent_public_versioned_witness:
  "fetchUndecidedDependentWorkspaces [ws_A] [] example_project {} = Inr [(ws_B, ws_A)]
   \<and> \<not> is_private (manifest ws_B) \<and> version (manifest ws_B) \<noteq> None"
  using propagate_dependent_public_versioned [OF propagate_example_A, of ws_B ws_A]
    propagate_example_A by simp

text \<open>
  Claim C6: the propagation is a single hop. A pair \<open>(w, dep)\<close> is returned only when \<open>w\<close>
  is a workspace of the project with a dependency that resolves to the locator hash of
  \<open>dep\<close>, and the lookup of the decided workspaces holds \<open>dep\<close> under that hash. A
  workspace none of whose own dependencies resolves to a decided workspace is the
  dependent of no pair, however its dependencies depend on decided workspaces
  themselves: in the example, \<open>ws_C\<close> depends on \<open>ws_B\<close>, which depends on the decided
  \<open>ws_A\<close>, and only \<open>(ws_B, ws_A)\<close> is returned.
\<close>

theorem propagate_single_hop:
  "fetchUndecidedDependentWorkspaces decided_ws declined_ws p inc = Inr pairs \<Longrightarrow>
   ((w, dep) \<in> set pairs \<longrightarrow>
      w \<in> set (workspaces p) \<and> dep \<in> set decided_ws
      \<and> locatorMap decided_ws (locatorHash dep) = Some dep
      \<and> (\<exists>d \<in> set (dependencies w). storedResolutions p (descriptorHash d) = Some (locatorHash dep)))
   \<and> ((\<forall>d \<in> set (dependencies w). \<forall>r. storedResolutions p (descriptorHash d) = Some r
           \<longrightarrow> r \<notin> locatorHash ` set decided_ws)
        \<longrightarrow> w \<notin> fst ` set pairs)"
proof (intro conjI impI)
  assume f: "fetchUndecidedDependentWorkspaces decided_ws declined_ws p inc = Inr pairs"
  {
    assume "(w, dep) \<in> set pairs"
    then have w: "w \<in> set (workspaces p)" and r: "resolves p (locatorMap decided_ws) w dep"
      using fetch_set [OF f] by auto
    from r obtain d r' where d: "d \<in> set (dependencies w)"
      "storedResolutions p (descriptorHash d) = Some r'" "locatorMap decided_ws r' = Some dep"
      by (auto simp: resolves_def)
    from d(3) have m: "dep \<in> set decided_ws" "locatorHash dep = r'"
      using locatorMap_Some by blast+
    show "w \<in> set (workspaces p)" by (rule w)
    show "dep \<in> set decided_ws" by (rule m)
    show "locatorMap decided_ws (locatorHash dep) = Some dep" using d(3) m(2) by simp
    show "\<exists>d \<in> set (dependencies w). storedResolutions p (descriptorHash d) = Some (locatorHash dep)"
      using d(1,2) m(2) by auto
  }
  assume far: "\<forall>d \<in> set (dependencies w). \<forall>r. storedResolutions p (descriptorHash d) = Some r
           \<longrightarrow> r \<notin> locatorHash ` set decided_ws"
  show "w \<notin> fst ` set pairs"
  proof
    assume "w \<in> fst ` set pairs"
    then obtain dep' where "(w, dep') \<in> set pairs" by auto
    then have "resolves p (locatorMap decided_ws) w dep'"
      using fetch_set [OF f] by auto
    then obtain d r' where d: "d \<in> set (dependencies w)"
      "storedResolutions p (descriptorHash d) = Some r'" "locatorMap decided_ws r' = Some dep'"
      by (auto simp: resolves_def)
    from d(3) have "r' \<in> locatorHash ` set decided_ws"
      using locatorMap_Some by blast
    with far d(1,2) show False by blast
  qed
qed

theorem propagate_single_hop_witness:
  "fetchUndecidedDependentWorkspaces [ws_A] [] example_project {} = Inr [(ws_B, ws_A)]
   \<and> ws_B \<in> set (workspaces example_project) \<and> ws_A \<in> set [ws_A]
   \<and> locatorMap [ws_A] (locatorHash ws_A) = Some ws_A
   \<and> (\<exists>d \<in> set (dependencies ws_B).
         storedResolutions example_project (descriptorHash d) = Some (locatorHash ws_A))
   \<and> (\<exists>d \<in> set (dependencies ws_C).
         storedResolutions example_project (descriptorHash d) = Some (locatorHash ws_B))
   \<and> ws_C \<notin> fst ` set [(ws_B, ws_A)]"
proof -
  have far: "\<forall>d \<in> set (dependencies ws_C). \<forall>r.
      storedResolutions example_project (descriptorHash d) = Some r \<longrightarrow> r \<notin> locatorHash ` set [ws_A]"
    by (simp add: example_defs)
  have hop2: "\<exists>d \<in> set (dependencies ws_C).
         storedResolutions example_project (descriptorHash d) = Some (locatorHash ws_B)"
    by (simp add: example_defs)
  have "(ws_B, ws_A) \<in> set [(ws_B, ws_A)]" by simp
  then show ?thesis
    using propagate_single_hop [OF propagate_example_A, of ws_B ws_A]
      propagate_single_hop [OF propagate_example_A, of ws_C] far hop2 propagate_example_A
    by blast
qed

text \<open>
  Claim C2 says the propagation is monotonic in the decided array. The outer loop skips a
  workspace that is itself in the decided lookup (unless the include set holds it), so a
  workspace added to the decided array loses the pairs it was the dependent of. What
  holds: when the decided workspaces grow from \<open>decided_ws\<close> to \<open>decided_ws'\<close>, whose
  locator hashes are distinct, and the propagation returns for \<open>decided_ws\<close>, then it
  returns for \<open>decided_ws'\<close>, and every pair returned for \<open>decided_ws\<close> whose dependent is
  in the include set or is not a workspace with a locator hash of \<open>decided_ws'\<close> is returned
  for \<open>decided_ws'\<close> too.
\<close>

theorem propagate_monotone_unless_newly_decided:
  assumes sub: "set decided_ws \<subseteq> set decided_ws'"
    and inj: "inj_on locatorHash (set decided_ws')"
    and f: "fetchUndecidedDependentWorkspaces decided_ws declined_ws p inc = Inr pairs"
  shows "\<exists>pairs'. fetchUndecidedDependentWorkspaces decided_ws' declined_ws p inc = Inr pairs'
     \<and> {(w, dep). (w, dep) \<in> set pairs \<and> (w \<in> inc \<or> locatorHash w \<notin> locatorHash ` set decided_ws')}
         \<subseteq> set pairs'"
proof -
  let ?b = "locatorMap decided_ws" and ?b' = "locatorMap decided_ws'" and ?d = "locatorMap declined_ws"
  let ?ok = "\<lambda>w. \<forall>d \<in> set (dependencies w). \<exists>r. storedResolutions p (descriptorHash d) = Some r \<and> storedPackages p r \<noteq> None"
  have dom: "?b' h = None \<Longrightarrow> ?b h = None" for h
    using sub by (auto simp: locatorMap_None_iff)
  have chk: "checked ?b' ?d inc w \<Longrightarrow> checked ?b ?d inc w" for w
    using dom [of "locatorHash w"] by (auto simp: checked_def)
  have "\<forall>w \<in> set (workspaces p). checked ?b ?d inc w \<longrightarrow> ?ok w"
    using f workspaces_loop_Inr_iff [of p ?b ?d inc "workspaces p"]
    by (auto simp: fetchUndecidedDependentWorkspaces_def)
  then have "\<forall>w \<in> set (workspaces p). checked ?b' ?d inc w \<longrightarrow> ?ok w"
    using chk by blast
  then obtain pairs' where f': "fetchUndecidedDependentWorkspaces decided_ws' declined_ws p inc = Inr pairs'"
    using workspaces_loop_Inr_iff [of p ?b' ?d inc "workspaces p"]
    by (auto simp: fetchUndecidedDependentWorkspaces_def)
  have "(w, dep) \<in> set pairs'"
    if m: "(w, dep) \<in> set pairs" and n: "w \<in> inc \<or> locatorHash w \<notin> locatorHash ` set decided_ws'"
    for w dep
  proof -
    from m have w: "w \<in> set (workspaces p)" and c: "checked ?b ?d inc w" and r: "resolves p ?b w dep"
      using fetch_set [OF f] by auto
    from n have "?b' (locatorHash w) = None \<or> w \<in> inc"
      by (auto simp: locatorMap_None_iff)
    with c have c': "checked ?b' ?d inc w"
      by (auto simp: checked_def)
    from r obtain d r' where d: "d \<in> set (dependencies w)"
      "storedResolutions p (descriptorHash d) = Some r'" "?b r' = Some dep"
      by (auto simp: resolves_def)
    from d(3) have "dep \<in> set decided_ws" "locatorHash dep = r'"
      using locatorMap_Some by blast+
    then have "?b' r' = Some dep"
      using locatorMap_inj [OF inj, of dep] sub by auto
    with d(1,2) have "resolves p ?b' w dep"
      by (auto simp: resolves_def)
    with w c' show ?thesis using fetch_set [OF f'] by auto
  qed
  with f' show ?thesis by auto
qed

theorem propagate_monotone_unless_newly_decided_witness:
  "set [ws_A] \<subseteq> set [ws_A, ws_C] \<and> inj_on locatorHash (set [ws_A, ws_C])
   \<and> fetchUndecidedDependentWorkspaces [ws_A] [] example_project {} = Inr [(ws_B, ws_A)]
   \<and> (\<exists>pairs'. fetchUndecidedDependentWorkspaces [ws_A, ws_C] [] example_project {} = Inr pairs'
        \<and> (ws_B, ws_A) \<in> set pairs')"
proof -
  have s: "set [ws_A] \<subseteq> set [ws_A, ws_C]" by simp
  have i: "inj_on locatorHash (set [ws_A, ws_C])" by (simp add: example_defs)
  have n: "locatorHash ws_B \<notin> locatorHash ` set [ws_A, ws_C]" by (simp add: example_defs)
  from propagate_monotone_unless_newly_decided [OF s i propagate_example_A] n s i propagate_example_A
  show ?thesis by auto
qed

text \<open>
  The claim as stated fails in the example project: with \<open>ws_A\<close> decided the propagation
  returns \<open>(ws_B, ws_A)\<close>; with \<open>ws_A\<close> and \<open>ws_B\<close> decided it skips \<open>ws_B\<close> and returns
  \<open>(ws_C, ws_B)\<close> alone.
\<close>

theorem propagate_not_monotone_counterexample:
  "set [ws_A] \<subseteq> set [ws_A, ws_B]
   \<and> fetchUndecidedDependentWorkspaces [ws_A] [] example_project {} = Inr [(ws_B, ws_A)]
   \<and> fetchUndecidedDependentWorkspaces [ws_A, ws_B] [] example_project {} = Inr [(ws_C, ws_B)]
   \<and> \<not> set [(ws_B, ws_A)] \<subseteq> set [(ws_C, ws_B)]"
  using propagate_example_A propagate_example_A_B by (simp add: example_defs)

section \<open>Decisions\<close>

lemma jsmap_get_set: "jsmap_get (jsmap_set m k v) k = Some v"
  by (induction m) (auto simp: jsmap_get_def)

lemma jsmap_get_delete: "jsmap_get (jsmap_delete m k) k = None"
  by (induction m) (auto simp: jsmap_get_def jsmap_delete_def)

lemma keys_jsmap_set: "fst ` set (jsmap_set m k v) = insert k (fst ` set m)"
  by (induction m) auto



lemma distinct_jsmap_set: "distinct (map fst m) \<Longrightarrow> distinct (map fst (jsmap_set m k v))"
proof (induction m)
  case Nil
  then show ?case by simp
next
  case (Cons e m)
  then show ?case using keys_jsmap_set [of m k v] by (auto simp: image_iff)
qed

lemma values_jsmap_set: "e \<in> set (jsmap_set m k v) \<Longrightarrow> e = (k, v) \<or> e \<in> set m"
  by (induction m) (auto split: if_splits)

lemma set_jsmap_delete: "e \<in> set (jsmap_delete m k) \<Longrightarrow> e \<in> set m"
  by (simp add: jsmap_delete_def)

lemma distinct_jsmap_delete: "distinct (map fst m) \<Longrightarrow> distinct (map fst (jsmap_delete m k))"
  by (simp add: jsmap_delete_def distinct_map_filter)

lemma recorded_setDecision: "recorded m \<Longrightarrow> recorded (setDecision m w d)"
proof (cases "d = Undecided")
  case True
  assume "recorded m"
  then show ?thesis using True
    by (auto simp: recorded_def setDecision_def distinct_jsmap_delete list_all_iff
        dest: set_jsmap_delete)
next
  case False
  assume "recorded m"
  then show ?thesis using False
    by (fastforce simp: recorded_def setDecision_def distinct_jsmap_set list_all_iff
        dest: values_jsmap_set)
qed

lemma recorded_fold: "recorded m \<Longrightarrow> recorded (fold (\<lambda>op m. setDecision m (fst op) (snd op)) ops m)"
  by (induction ops arbitrary: m) (auto simp: recorded_setDecision)

lemma decisions_App_keypress:
  "decisions (App_keypress prerelease listing st key) = decisions st
   \<or> (\<exists>w d. decisions (App_keypress prerelease listing st key) = setDecision (decisions st) w d)"
  by (auto simp: App_keypress_def Let_def split: option.splits sum.splits)

lemma recorded_App_keypress:
  "recorded (decisions st) \<Longrightarrow> recorded (decisions (App_keypress prerelease listing st key))"
  using decisions_App_keypress [of prerelease listing st key]
  by (auto simp: recorded_setDecision)

lemma recorded_session_loop:
  "session_loop status p prerelease st keys = Inr (Some m) \<Longrightarrow> recorded (decisions st) \<Longrightarrow> recorded m"
proof (induction keys arbitrary: st)
  case Nil
  then show ?case by (auto split: sum.splits)
next
  case (Cons key keys)
  then show ?case
    by (auto split: sum.splits if_splits intro: recorded_App_keypress)
qed

lemma session_loop_needs_return:
  "session_loop status p prerelease st keys = Inr (Some m) \<Longrightarrow> KReturn \<in> set keys"
proof (induction keys arbitrary: st)
  case Nil
  then show ?case by (auto split: sum.splits)
next
  case (Cons key keys)
  then show ?case
    by (auto split: sum.splits if_splits)
qed

lemma recorded_renderForm:
  "renderForm status p prerelease keys = Inr (Some m) \<Longrightarrow> recorded m"
  by (auto simp: renderForm_def recorded_def split: sum.splits dest!: recorded_session_loop)

lemma renderForm_needs_return:
  "renderForm status p prerelease keys = Inr (Some m) \<Longrightarrow> KReturn \<in> set keys"
  by (auto simp: renderForm_def split: sum.splits dest: session_loop_needs_return)


lemma executeInteractive_runs:
  "snd (executeInteractive files getWs previous p prerelease keys) \<noteq> [] \<Longrightarrow>
   \<exists>m. renderForm (fetchWorkspacesStatus (uniq (map getWs files)) previous) p prerelease keys = Inr (Some m)"
  by (auto simp: executeInteractive_def Let_def split: if_splits sum.splits bool.splits option.splits)

lemma example_session_confirmed:
  "executeInteractive example_files example_owner previous_same example_project example_prerelease
     [KDown, KRight, KUp, KRight, KRight, KReturn]
   = (Inr None, [CliRun ''/repo/b'' Decline, CliRun ''/repo/a'' Patch])"
  by code_simp

lemma example_status:
  "fetchWorkspacesStatus (uniq (map example_owner example_files)) previous_same
   = \<lparr>decided = [], undecided = [ws_A, ws_B], declined = []\<rparr>"
  by code_simp

lemma example_uniq: "uniq (map example_owner example_files) = [ws_A, ws_B]"
  by code_simp

lemma example_renderForm_confirmed:
  "renderForm \<lparr>decided = [], undecided = [ws_A, ws_B], declined = []\<rparr> example_project example_prerelease
     [KDown, KRight, KUp, KRight, KRight, KReturn] = Inr (Some [(ws_B, Decline), (ws_A, Patch)])"
  by code_simp

lemma example_renderForm_aborted:
  "renderForm \<lparr>decided = [], undecided = [ws_A, ws_B], declined = []\<rparr> example_project example_prerelease
     [KDown, KRight, KUp, KRight, KRight] = Inr None"
  by code_simp

text \<open>
  Claim C8: after any sequence of \<^verbatim>\<open>setDecision\<close> calls from the empty map, no entry of
  the decision map has the value undecided, and no workspace has two entries; so the map
  a session submits never holds undecided. Recording undecided for a workspace is the
  removal of its entry: afterwards the map has no entry for it and its row shows
  undecided, as the row of any workspace without an entry does. Recording another
  decision stores it.
\<close>

theorem decisions_never_hold_undecided:
  "(\<forall>e \<in> set (fold (\<lambda>op m. setDecision m (fst op) (snd op)) ops []). snd e \<noteq> Undecided)
   \<and> distinct (map fst (fold (\<lambda>op m. setDecision m (fst op) (snd op)) ops []))
   \<and> (renderForm status p prerelease keys = Inr (Some submitted)
        \<longrightarrow> (\<forall>e \<in> set submitted. snd e \<noteq> Undecided))
   \<and> setDecision m w Undecided = jsmap_delete m w
   \<and> jsmap_get (setDecision m w Undecided) w = None
   \<and> decision_of (setDecision m w Undecided) w = Undecided
   \<and> (jsmap_get m w = None \<longrightarrow> decision_of m w = Undecided)
   \<and> (d \<noteq> Undecided \<longrightarrow> jsmap_get (setDecision m w d) w = Some d)"
proof -
  have "recorded (fold (\<lambda>op m. setDecision m (fst op) (snd op)) ops [])"
    by (rule recorded_fold) (simp add: recorded_def)
  moreover have "recorded submitted" if "renderForm status p prerelease keys = Inr (Some submitted)"
    using that by (rule recorded_renderForm)
  ultimately show ?thesis
    by (auto simp: recorded_def list_all_iff setDecision_def jsmap_get_delete jsmap_get_set decision_of_def)
qed

theorem decisions_never_hold_undecided_witness:
  "fold (\<lambda>op m. setDecision m (fst op) (snd op))
      [(ws_A, Minor), (ws_B, Decline), (ws_A, Undecided), (ws_A, Undecided)] [] = [(ws_B, Decline)]
   \<and> snd (ws_B, Decline) \<noteq> Undecided
   \<and> renderForm \<lparr>decided = [], undecided = [ws_A, ws_B], declined = []\<rparr> example_project
        example_prerelease [KDown, KRight, KUp, KRight, KRight, KReturn]
       = Inr (Some [(ws_B, Decline), (ws_A, Patch)])
   \<and> snd (ws_A, Patch) \<noteq> Undecided
   \<and> jsmap_get ([] :: Decisions) ws_A = None \<and> decision_of [] ws_A = Undecided
   \<and> jsmap_get (setDecision [(ws_A, Minor)] ws_A Undecided) ws_A = None
   \<and> jsmap_get (setDecision [] ws_A Patch) ws_A = Some Patch"
proof -
  have f: "fold (\<lambda>op m. setDecision m (fst op) (snd op))
      [(ws_A, Minor), (ws_B, Decline), (ws_A, Undecided), (ws_A, Undecided)] [] = [(ws_B, Decline)]"
    by (simp add: setDecision_def jsmap_delete_def example_defs)
  have g: "jsmap_get ([] :: Decisions) ws_A = None" by (simp add: jsmap_get_def)
  have p: "Patch \<noteq> Undecided" by simp
  note a = decisions_never_hold_undecided
      [of "[(ws_A, Minor), (ws_B, Decline), (ws_A, Undecided), (ws_A, Undecided)]"
        "\<lparr>decided = [], undecided = [ws_A, ws_B], declined = []\<rparr>" example_project example_prerelease
        "[KDown, KRight, KUp, KRight, KRight, KReturn]" "[(ws_B, Decline), (ws_A, Patch)]"
        "[]" ws_A Patch]
  note b = decisions_never_hold_undecided [where m = "[(ws_A, Minor)]" and w = ws_A]
  have "\<forall>e \<in> set [(ws_B, Decline), (ws_A, Patch)]. snd e \<noteq> Undecided"
    using a example_renderForm_confirmed by blast
  then have "snd (ws_A, Patch) \<noteq> Undecided" by simp
  moreover have "decision_of [] ws_A = Undecided" using a g by blast
  moreover have "jsmap_get (setDecision [(ws_A, Minor)] ws_A Undecided) ws_A = None"
    using b by blast
  moreover have "jsmap_get (setDecision [] ws_A Patch) ws_A = Some Patch"
    using a p by blast
  ultimately show ?thesis using f g example_renderForm_confirmed by simp
qed

section \<open>Strategies\<close>

lemma indexOf_nth:
  "distinct xs \<Longrightarrow> i < length xs \<Longrightarrow> indexOf xs (xs ! i) = int i"
proof (induction xs arbitrary: i)
  case Nil
  then show ?case by simp
next
  case (Cons y ys)
  show ?case
  proof (cases i)
    case 0
    then show ?thesis by simp
  next
    case (Suc j)
    with Cons.prems have j: "j < length ys" "distinct ys" "ys ! j \<noteq> y"
      by auto
    with Cons.IH [of j] Suc show ?thesis
      by (auto simp: Let_def)
  qed
qed

lemma js_rem_nat:
  "0 < n \<Longrightarrow> js_rem (int k) (int n) = Some (int (k mod n))"
  by (cases "k = 0") (simp_all add: js_rem_def zmod_int)

lemma js_at_nat: "k < length xs \<Longrightarrow> js_at xs (Some (int k)) = Some (xs ! k)"
  by (simp add: js_at_def)

lemma useListInput_plus_nth:
  assumes "distinct xs" "i < length xs" "k \<noteq> m"
  shows "useListInput (xs ! i) xs True m k k = Some (Some (xs ! ((i + 1) mod length xs)))"
proof -
  have n: "0 < length xs" using assms(2) by (cases xs) auto
  have "indexOf xs (xs ! i) + 1 = int (i + 1)"
    using assms by (simp add: indexOf_nth)
  then have "js_rem (indexOf xs (xs ! i) + 1) (int (length xs)) = Some (int ((i + 1) mod length xs))"
    using js_rem_nat [OF n, of "i + 1"] by (simp add: add.commute)
  moreover have "(i + 1) mod length xs < length xs" using n by simp
  ultimately show ?thesis
    using assms(3) by (simp add: useListInput_def js_at_nat)
qed

lemma useListInput_minus_nth:
  assumes "distinct xs" "i < length xs"
  shows "useListInput (xs ! i) xs True m k m = Some (Some (xs ! ((i + length xs - 1) mod length xs)))"
proof -
  have n: "0 < length xs" using assms(2) by (cases xs) auto
  have "int (length xs) + indexOf xs (xs ! i) - 1 = int (i + length xs - 1)"
    using assms n by (simp add: indexOf_nth)
  then have "js_rem (int (length xs) + indexOf xs (xs ! i) - 1) (int (length xs))
      = Some (int ((i + length xs - 1) mod length xs))"
    using js_rem_nat [OF n, of "i + length xs - 1"] by simp
  moreover have "(i + length xs - 1) mod length xs < length xs" using n by simp
  ultimately show ?thesis
    by (simp add: useListInput_def js_at_nat)
qed

lemma strategies_distinct: "distinct (strategies prerelease v)"
  by (simp add: strategies_def)

lemma useListInput_strategies_defined:
  "useListInput d (strategies prerelease v) True KLeft KRight key \<noteq> Some None"
  by (cases d; cases key; simp add: useListInput_def strategies_def js_rem_def js_at_def)

lemma decision_of_setDecision: "decision_of (setDecision m w d) w = d"
  by (simp add: decision_of_def setDecision_def jsmap_get_set jsmap_get_delete)

lemma App_keypress_right:
  assumes "activeKey st = Some k" "jsmap_get (fullListing listing) k = Some w"
    and "version (manifest w) = Some v"
    and "useListInput (decision_of (decisions st) w) (strategies prerelease v) True KLeft KRight KRight
           = Some (Some d)"
  shows "decisions (App_keypress prerelease listing st KRight) = setDecision (decisions st) w d"
  using assms by (simp add: App_keypress_def Let_def useListInput_def Undecided_strategies_def)

lemma App_keypress_left:
  assumes "activeKey st = Some k" "jsmap_get (fullListing listing) k = Some w"
    and "version (manifest w) = Some v"
    and "useListInput (decision_of (decisions st) w) (strategies prerelease v) True KLeft KRight KLeft
           = Some (Some d)"
  shows "decisions (App_keypress prerelease listing st KLeft) = setDecision (decisions st) w d"
  using assms by (simp add: App_keypress_def Let_def useListInput_def Undecided_strategies_def)

text \<open>
  Claim C7: for a workspace whose current version is a prerelease the strategy list is
  exactly undecided, decline, prerelease, major; for any other version it is exactly
  undecided, decline, patch, minor, major, prerelease; the component \<^verbatim>\<open>Undecided\<close> of a
  workspace with version \<open>v\<close> uses that list. From the strategy at index \<open>i\<close>, the right
  key sets the strategy at index \<open>i + 1\<close> and the left key the strategy at index \<open>i - 1\<close>,
  both modulo the length of the list: right on the last strategy sets undecided, and
  left on undecided sets the last strategy. In the session, when the active row is the
  row of \<open>w\<close> and shows the strategy at index \<open>i\<close>, after the right key it shows the
  strategy at index \<open>i + 1\<close> and after the left key the one at index \<open>i - 1\<close>, modulo the
  length.
\<close>

theorem strategies_lists_and_cycling:
  "(prerelease v \<noteq> None \<longrightarrow> strategies prerelease v = [Undecided, Decline, Prerelease, Major])
   \<and> (prerelease v = None \<longrightarrow>
        strategies prerelease v = [Undecided, Decline, Patch, Minor, Major, Prerelease])
   \<and> (version (manifest w) = Some v \<longrightarrow>
        Undecided_strategies prerelease w = Inr (strategies prerelease v))
   \<and> (i < length (strategies prerelease v) \<longrightarrow>
        useListInput (strategies prerelease v ! i) (strategies prerelease v) True KLeft KRight KRight
          = Some (Some (strategies prerelease v ! ((i + 1) mod length (strategies prerelease v))))
        \<and> useListInput (strategies prerelease v ! i) (strategies prerelease v) True KLeft KRight KLeft
          = Some (Some (strategies prerelease v
                          ! ((i + length (strategies prerelease v) - 1) mod length (strategies prerelease v)))))
   \<and> useListInput (last (strategies prerelease v)) (strategies prerelease v) True KLeft KRight KRight
        = Some (Some Undecided)
   \<and> useListInput Undecided (strategies prerelease v) True KLeft KRight KLeft
        = Some (Some (last (strategies prerelease v)))
   \<and> (activeKey st = Some k \<and> jsmap_get (fullListing listing) k = Some w
        \<and> version (manifest w) = Some v \<and> i < length (strategies prerelease v)
        \<and> decision_of (decisions st) w = strategies prerelease v ! i
      \<longrightarrow> decision_of (decisions (App_keypress prerelease listing st KRight)) w
            = strategies prerelease v ! ((i + 1) mod length (strategies prerelease v))
          \<and> decision_of (decisions (App_keypress prerelease listing st KLeft)) w
            = strategies prerelease v
                ! ((i + length (strategies prerelease v) - 1) mod length (strategies prerelease v)))"
proof (intro conjI impI)
  show "strategies prerelease v = [Undecided, Decline, Prerelease, Major]" if "prerelease v \<noteq> None"
    using that by (simp add: strategies_def)
  show "strategies prerelease v = [Undecided, Decline, Patch, Minor, Major, Prerelease]"
    if "prerelease v = None"
    using that by (simp add: strategies_def)
  show "Undecided_strategies prerelease w = Inr (strategies prerelease v)"
    if "version (manifest w) = Some v"
    using that by (simp add: Undecided_strategies_def)
  let ?s = "strategies prerelease v"
  have right: "useListInput (?s ! i) ?s True KLeft KRight KRight = Some (Some (?s ! ((i + 1) mod length ?s)))"
    if "i < length ?s"
    using that by (simp add: useListInput_plus_nth strategies_distinct)
  have left: "useListInput (?s ! i) ?s True KLeft KRight KLeft
          = Some (Some (?s ! ((i + length ?s - 1) mod length ?s)))"
    if "i < length ?s"
    using that by (simp add: useListInput_minus_nth strategies_distinct)
  show "useListInput (?s ! i) ?s True KLeft KRight KRight = Some (Some (?s ! ((i + 1) mod length ?s)))"
    if "i < length ?s"
    using that by (rule right)
  show "useListInput (?s ! i) ?s True KLeft KRight KLeft
          = Some (Some (?s ! ((i + length ?s - 1) mod length ?s)))"
    if "i < length ?s"
    using that by (rule left)
  show "useListInput (last ?s) ?s True KLeft KRight KRight = Some (Some Undecided)"
    by (simp add: strategies_def useListInput_def js_rem_def js_at_def)
  show "useListInput Undecided ?s True KLeft KRight KLeft = Some (Some (last ?s))"
    by (simp add: strategies_def useListInput_def js_rem_def js_at_def)
  assume a: "activeKey st = Some k \<and> jsmap_get (fullListing listing) k = Some w
        \<and> version (manifest w) = Some v \<and> i < length ?s
        \<and> decision_of (decisions st) w = ?s ! i"
  then have "decisions (App_keypress prerelease listing st KRight)
      = setDecision (decisions st) w (?s ! ((i + 1) mod length ?s))"
    using right by (intro App_keypress_right [of st k listing w v]) simp_all
  then show "decision_of (decisions (App_keypress prerelease listing st KRight)) w
      = ?s ! ((i + 1) mod length ?s)"
    by (simp add: decision_of_setDecision)
  from a have "decisions (App_keypress prerelease listing st KLeft)
      = setDecision (decisions st) w (?s ! ((i + length ?s - 1) mod length ?s))"
    using left by (intro App_keypress_left [of st k listing w v]) simp_all
  then show "decision_of (decisions (App_keypress prerelease listing st KLeft)) w
      = ?s ! ((i + length ?s - 1) mod length ?s)"
    by (simp add: decision_of_setDecision)
qed

lemma example_listing_is_render:
  "App_render \<lparr>decided = [], undecided = [ws_A], declined = []\<rparr> example_project example_state
   = Inr example_listing"
  by code_simp

theorem strategies_lists_and_cycling_witness:
  "strategies example_prerelease ''1.0.0-alpha.1'' = [Undecided, Decline, Prerelease, Major]
   \<and> strategies example_prerelease ''1.0.0'' = [Undecided, Decline, Patch, Minor, Major, Prerelease]
   \<and> Undecided_strategies example_prerelease ws_A
        = Inr [Undecided, Decline, Patch, Minor, Major, Prerelease]
   \<and> useListInput Major [Undecided, Decline, Prerelease, Major] True KLeft KRight KRight
        = Some (Some Undecided)
   \<and> useListInput Undecided [Undecided, Decline, Prerelease, Major] True KLeft KRight KLeft
        = Some (Some Major)
   \<and> useListInput Prerelease [Undecided, Decline, Patch, Minor, Major, Prerelease] True KLeft KRight KRight
        = Some (Some Undecided)
   \<and> useListInput Decline [Undecided, Decline, Patch, Minor, Major, Prerelease] True KLeft KRight KRight
        = Some (Some Patch)
   \<and> decision_of (decisions example_state) ws_A = Prerelease
   \<and> decision_of (decisions (App_keypress example_prerelease example_listing example_state KRight)) ws_A
        = Undecided
   \<and> decision_of (decisions (App_keypress example_prerelease example_listing example_state KLeft)) ws_A
        = Major"
proof -
  have p: "example_prerelease ''1.0.0-alpha.1'' \<noteq> None" and n: "example_prerelease ''1.0.0'' = None"
    by (simp_all add: example_prerelease_def)
  have v: "version (manifest ws_A) = Some ''1.0.0''" by (simp add: example_defs)
  note pre = strategies_lists_and_cycling [of example_prerelease "''1.0.0-alpha.1''" ws_A 3]
  note plain = strategies_lists_and_cycling [of example_prerelease "''1.0.0''" ws_A 1]
  note row = strategies_lists_and_cycling [of example_prerelease "''1.0.0''" ws_A 5 example_state
      "''undecidedWorkspace:hA''" example_listing]
  have s1: "strategies example_prerelease ''1.0.0-alpha.1'' = [Undecided, Decline, Prerelease, Major]"
    using pre p by blast
  have s2: "strategies example_prerelease ''1.0.0''
      = [Undecided, Decline, Patch, Minor, Major, Prerelease]"
    using plain n by blast
  have u: "Undecided_strategies example_prerelease ws_A
      = Inr [Undecided, Decline, Patch, Minor, Major, Prerelease]"
    using plain v s2 by simp
  have c1: "useListInput Major [Undecided, Decline, Prerelease, Major] True KLeft KRight KRight
        = Some (Some Undecided)
      \<and> useListInput Undecided [Undecided, Decline, Prerelease, Major] True KLeft KRight KLeft
        = Some (Some Major)"
    using pre by (simp add: s1)
  have c2: "useListInput Prerelease [Undecided, Decline, Patch, Minor, Major, Prerelease] True KLeft KRight KRight
        = Some (Some Undecided)
      \<and> useListInput Decline [Undecided, Decline, Patch, Minor, Major, Prerelease] True KLeft KRight KRight
        = Some (Some Patch)"
    using plain by (simp add: s2)
  have d: "decision_of (decisions example_state) ws_A = Prerelease"
    by (simp add: example_state_def decision_of_def jsmap_get_def)
  have a: "activeKey example_state = Some ''undecidedWorkspace:hA''
      \<and> jsmap_get (fullListing example_listing) ''undecidedWorkspace:hA'' = Some ws_A"
    by (simp add: example_state_def example_listing_def jsmap_get_def)
  have c3: "decision_of (decisions (App_keypress example_prerelease example_listing example_state KRight)) ws_A
        = Undecided
      \<and> decision_of (decisions (App_keypress example_prerelease example_listing example_state KLeft)) ws_A
        = Major"
    using row a v d by (simp add: s2)
  from s1 s2 u c1 c2 c3 d show ?thesis by simp
qed

section \<open>The interactive command\<close>




text \<open>
  Claim C4: when the keypresses of the session hold no return, the command makes no run
  at all. When the session was opened and ends without a submitted map, the command
  returns the exit code 1 and made no run; a session without return ends so, unless a
  render raised, and then the command raises and made no run either. Whenever the
  command made a run, return was pressed and the session submitted a map.
\<close>

theorem aborted_session_applies_nothing:
  "(KReturn \<notin> set keys \<longrightarrow> snd (executeInteractive files getWs previous p prerelease keys) = [])
   \<and> (uniq (map getWs files) \<noteq> []
       \<and> session_needed (fetchWorkspacesStatus (uniq (map getWs files)) previous) p = Inr True
       \<and> renderForm (fetchWorkspacesStatus (uniq (map getWs files)) previous) p prerelease keys = Inr None
      \<longrightarrow> executeInteractive files getWs previous p prerelease keys = (Inr (Some 1), []))
   \<and> (uniq (map getWs files) \<noteq> []
       \<and> session_needed (fetchWorkspacesStatus (uniq (map getWs files)) previous) p = Inr True
       \<and> KReturn \<notin> set keys
      \<longrightarrow> executeInteractive files getWs previous p prerelease keys = (Inr (Some 1), [])
          \<or> (\<exists>e. executeInteractive files getWs previous p prerelease keys = (Inl e, [])))
   \<and> (snd (executeInteractive files getWs previous p prerelease keys) \<noteq> []
      \<longrightarrow> KReturn \<in> set keys
          \<and> (\<exists>m. renderForm (fetchWorkspacesStatus (uniq (map getWs files)) previous) p prerelease keys
                  = Inr (Some m)))"
proof (intro conjI impI)
  let ?status = "fetchWorkspacesStatus (uniq (map getWs files)) previous"
  let ?exec = "executeInteractive files getWs previous p prerelease keys"
  have runs: "\<exists>m. renderForm ?status p prerelease keys = Inr (Some m)" if "snd ?exec \<noteq> []"
    using that by (rule executeInteractive_runs)
  show "snd ?exec = []" if "KReturn \<notin> set keys"
    using that runs renderForm_needs_return by blast
  show "?exec = (Inr (Some 1), [])"
    if "uniq (map getWs files) \<noteq> [] \<and> session_needed ?status p = Inr True
        \<and> renderForm ?status p prerelease keys = Inr None"
    using that by (simp add: executeInteractive_def Let_def)
  show "?exec = (Inr (Some 1), []) \<or> (\<exists>e. ?exec = (Inl e, []))"
    if a: "uniq (map getWs files) \<noteq> [] \<and> session_needed ?status p = Inr True \<and> KReturn \<notin> set keys"
  proof (cases "renderForm ?status p prerelease keys")
    case (Inl e)
    with a show ?thesis by (simp add: executeInteractive_def Let_def)
  next
    case (Inr r)
    with a renderForm_needs_return have "r = None"
      by (cases r) blast+
    with a Inr show ?thesis by (simp add: executeInteractive_def Let_def)
  qed
  show "KReturn \<in> set keys" if "snd ?exec \<noteq> []"
    using that runs renderForm_needs_return by blast
  show "\<exists>m. renderForm ?status p prerelease keys = Inr (Some m)" if "snd ?exec \<noteq> []"
    using that by (rule runs)
qed

theorem aborted_session_applies_nothing_witness:
  "KReturn \<notin> set [KDown, KRight, KUp, KRight, KRight]
   \<and> snd (executeInteractive example_files example_owner previous_same example_project
            example_prerelease [KDown, KRight, KUp, KRight, KRight]) = []
   \<and> executeInteractive example_files example_owner previous_same example_project example_prerelease
       [KDown, KRight, KUp, KRight, KRight] = (Inr (Some 1), [])
   \<and> snd (executeInteractive example_files example_owner previous_same example_project
            example_prerelease [KDown, KRight, KUp, KRight, KRight, KReturn]) \<noteq> []
   \<and> KReturn \<in> set [KDown, KRight, KUp, KRight, KRight, KReturn]
   \<and> (\<exists>m. renderForm (fetchWorkspacesStatus (uniq (map example_owner example_files)) previous_same)
             example_project example_prerelease [KDown, KRight, KUp, KRight, KRight, KReturn]
           = Inr (Some m))"
proof -
  have n: "uniq (map example_owner example_files) \<noteq> []"
    by (simp add: example_uniq)
  have s: "session_needed (fetchWorkspacesStatus (uniq (map example_owner example_files)) previous_same)
      example_project = Inr True"
    by (simp add: example_status session_needed_def)
  have f: "renderForm (fetchWorkspacesStatus (uniq (map example_owner example_files)) previous_same)
      example_project example_prerelease [KDown, KRight, KUp, KRight, KRight] = Inr None"
    by (simp add: example_status example_renderForm_aborted)
  have k: "KReturn \<notin> set [KDown, KRight, KUp, KRight, KRight]" by simp
  have c: "snd (executeInteractive example_files example_owner previous_same example_project
            example_prerelease [KDown, KRight, KUp, KRight, KRight, KReturn]) \<noteq> []"
    by (simp add: example_session_confirmed)
  note a = aborted_session_applies_nothing [of "[KDown, KRight, KUp, KRight, KRight]" example_files
      example_owner previous_same example_project example_prerelease]
  note b = aborted_session_applies_nothing [of "[KDown, KRight, KUp, KRight, KRight, KReturn]"
      example_files example_owner previous_same example_project example_prerelease]
  from a k have "snd (executeInteractive example_files example_owner previous_same example_project
            example_prerelease [KDown, KRight, KUp, KRight, KRight]) = []"
    by blast
  moreover from a n s f have "executeInteractive example_files example_owner previous_same example_project
      example_prerelease [KDown, KRight, KUp, KRight, KRight] = (Inr (Some 1), [])"
    by blast
  moreover from b c have "KReturn \<in> set [KDown, KRight, KUp, KRight, KRight, KReturn]
     \<and> (\<exists>m. renderForm (fetchWorkspacesStatus (uniq (map example_owner example_files)) previous_same)
             example_project example_prerelease [KDown, KRight, KUp, KRight, KRight, KReturn]
           = Inr (Some m))"
    by blast
  ultimately show ?thesis using k c by blast
qed

section \<open>The report command\<close>

lemma dependents_report_snd:
  "snd (dependents_report b pairs h) = (h \<or> pairs \<noteq> [])"
  by (induction pairs arbitrary: h) (auto simp: Let_def)

lemma dependents_report_errors:
  "list_ex is_ReportError (fst (dependents_report b pairs h)) = (pairs \<noteq> [])"
  by (induction pairs arbitrary: h) (auto simp: Let_def)

lemma dependents_report_no_run:
  "\<not> list_ex is_CliRun (fst (dependents_report b pairs h))"
  by (induction pairs arbitrary: h) (auto simp: Let_def)

lemma list_ex_map_error: "list_ex is_ReportError (map (\<lambda>w. ReportError (f w)) ws) = (ws \<noteq> [])"
  by (cases ws) auto

lemma list_ex_map_info: "\<not> list_ex is_ReportError (map (\<lambda>x. ReportInfo (f x)) xs)"
  by (induction xs) auto

lemma list_ex_run_map_error: "\<not> list_ex is_CliRun (map (\<lambda>w. ReportError (f w)) ws)"
  by (induction ws) auto

lemma list_ex_run_map_info: "\<not> list_ex is_CliRun (map (\<lambda>x. ReportInfo (f x)) xs)"
  by (induction xs) auto

lemmas report_simps = dependents_report_snd dependents_report_errors dependents_report_no_run
  list_ex_map_error list_ex_map_info list_ex_run_map_error list_ex_run_map_info

text \<open>
  Claim C9: \<^verbatim>\<open>executeStandard\<close> never runs \<^verbatim>\<open>yarn version\<close>, so it writes no decision.
  When the propagation from the status, with the empty include set, returns the pairs
  \<open>pairs\<close>, the command reports an error line if and only if the status has an undecided
  workspace or \<open>pairs\<close> is not empty, and it ends with an exit code, which is non-zero
  under the same condition.
\<close>

theorem report_mode_exit_code:
  "\<not> list_ex is_CliRun (snd (executeStandard files getWs previous p))
   \<and> (fetchUndecidedDependentWorkspaces
         (decided (fetchWorkspacesStatus (uniq (map getWs files)) previous))
         (declined (fetchWorkspacesStatus (uniq (map getWs files)) previous)) p {} = Inr pairs
      \<longrightarrow> (list_ex is_ReportError (snd (executeStandard files getWs previous p)) \<longleftrightarrow>
              undecided (fetchWorkspacesStatus (uniq (map getWs files)) previous) \<noteq> []
              \<or> pairs \<noteq> [])
          \<and> (\<exists>code. fst (executeStandard files getWs previous p) = Inr code
            \<and> (code \<noteq> 0 \<longleftrightarrow>
                 undecided (fetchWorkspacesStatus (uniq (map getWs files)) previous) \<noteq> []
                 \<or> pairs \<noteq> [])))"
proof (intro conjI impI)
  let ?status = "fetchWorkspacesStatus (uniq (map getWs files)) previous"
  show "\<not> list_ex is_CliRun (snd (executeStandard files getWs previous p))"
    by (cases "fetchUndecidedDependentWorkspaces (decided ?status) (declined ?status) p {}")
       (simp_all add: executeStandard_def Let_def report_simps)
  assume f: "fetchUndecidedDependentWorkspaces (decided ?status) (declined ?status) p {} = Inr pairs"
  then show "list_ex is_ReportError (snd (executeStandard files getWs previous p)) \<longleftrightarrow>
              undecided ?status \<noteq> [] \<or> pairs \<noteq> []"
    by (simp add: executeStandard_def Let_def report_simps)
  from f show "\<exists>code. fst (executeStandard files getWs previous p) = Inr code
            \<and> (code \<noteq> 0 \<longleftrightarrow> undecided ?status \<noteq> [] \<or> pairs \<noteq> [])"
    by (simp add: executeStandard_def Let_def exitCode_def report_simps)
qed

lemma example_report_nonzero:
  "fst (executeStandard example_files example_owner previous_same example_project) = Inr 1"
  by code_simp

lemma example_propagate_empty:
  "fetchUndecidedDependentWorkspaces [] [] example_project {} = Inr []"
  by code_simp

lemma example_status_empty:
  "fetchWorkspacesStatus (uniq []) previous_same
   = \<lparr>decided = [], undecided = [], declined = []\<rparr>"
  by code_simp

theorem report_mode_exit_code_witness:
  "fetchUndecidedDependentWorkspaces [] [] example_project {} = Inr []
   \<and> undecided (fetchWorkspacesStatus (uniq (map example_owner example_files)) previous_same)
       = [ws_A, ws_B]
   \<and> fst (executeStandard example_files example_owner previous_same example_project) = Inr 1
   \<and> undecided (fetchWorkspacesStatus (uniq (map example_owner [])) previous_same) = []
   \<and> fst (executeStandard [] example_owner previous_same example_project) = Inr 0
   \<and> \<not> list_ex is_CliRun (snd (executeStandard example_files example_owner previous_same example_project))"
proof -
  note a = report_mode_exit_code [of example_files example_owner previous_same example_project "[]"]
  note b = report_mode_exit_code [of "[]" example_owner previous_same example_project "[]"]
  have r: "\<not> list_ex is_CliRun (snd (executeStandard example_files example_owner previous_same example_project))"
    using a by blast
  have "\<exists>code. fst (executeStandard [] example_owner previous_same example_project) = Inr code
      \<and> (code \<noteq> 0 \<longleftrightarrow> undecided (fetchWorkspacesStatus (uniq (map example_owner [])) previous_same) \<noteq> []
            \<or> ([] :: (workspace \<times> workspace) list) \<noteq> [])"
    using b example_propagate_empty by (simp add: example_status_empty)
  then have z: "fst (executeStandard [] example_owner previous_same example_project) = Inr 0"
    by (auto simp: example_status_empty)
  have "\<exists>code. fst (executeStandard example_files example_owner previous_same example_project) = Inr code
      \<and> code \<noteq> 0"
    using a example_propagate_empty by (simp add: example_status)
  then have "fst (executeStandard example_files example_owner previous_same example_project) = Inr 1"
    using example_report_nonzero by simp
  then show ?thesis
    using example_propagate_empty r z
    by (simp add: example_status example_status_empty)
qed

end
